theory Spec2Isabelle
  imports Complex_Main
begin

section \<open>JavaScript values used by the bill splitter\<close>

text \<open>
  The program keeps its state in plain JavaScript objects used as dictionaries
  (\<^verbatim>\<open>Assignments\<close> in \<^verbatim>\<open>types.ts\<close>, \<^verbatim>\<open>peopleMap\<close> in \<^verbatim>\<open>Summary.tsx\<close>).
  An object is modelled by the list of its own properties in the order in which
  \<^verbatim>\<open>Object.keys\<close>, \<^verbatim>\<open>Object.values\<close> and \<^verbatim>\<open>JSON.stringify\<close> enumerate them: first the
  keys that are array indices (canonical decimal numerals below \<open>2^32 - 1\<close>) in
  ascending numeric order, then every other string key in the order of its creation.

  Numbers are modelled by the reals: the model has no rounding, no \<^verbatim>\<open>NaN\<close> and no
  infinities.

  The objects of the program are made by \<^verbatim>\<open>{}\<close> and by \<^verbatim>\<open>JSON.parse\<close>, so they inherit
  the properties of \<^verbatim>\<open>Object.prototype\<close>. The value of an object in the model is the list
  of its own properties; the prototype is not part of it. What the code does at the name
  of an inherited property is modelled where the code reads or writes such a name
  (\<open>inherited\<close> and \<open>obj_assign\<close> below). The objects that \<^verbatim>\<open>Object.prototype\<close> provides are
  taken as they are when the program starts.
\<close>

type_synonym 'v obj = "(string \<times> 'v) list"

definition is_digit :: "char \<Rightarrow> bool" where
  "is_digit c = (48 \<le> (of_char c :: int) \<and> (of_char c :: int) \<le> 57)"

definition dec_val :: "string \<Rightarrow> int" where
  "dec_val s = foldl (\<lambda>n c. 10 * n + ((of_char c :: int) - 48)) 0 s"

definition is_array_index :: "string \<Rightarrow> bool" where
  "is_array_index s =
     (s \<noteq> [] \<and> list_all is_digit s \<and> (if hd s = CHR ''0'' then s = ''0'' else True) \<and>
      dec_val s < 4294967295)"

definition obj_get :: "string \<Rightarrow> 'v obj \<Rightarrow> 'v option" where
  "obj_get k ob = map_of ob k"

definition goes_before :: "string \<Rightarrow> string \<Rightarrow> bool" where
  "goes_before k k' =
     (is_array_index k \<and> (if is_array_index k' then dec_val k < dec_val k' else True))"

fun obj_insert :: "string \<Rightarrow> 'v \<Rightarrow> 'v obj \<Rightarrow> 'v obj" where
  "obj_insert k v [] = [(k, v)]"
| "obj_insert k v ((k', v') # ob) =
     (if goes_before k k' then (k, v) # (k', v') # ob else (k', v') # obj_insert k v ob)"

fun obj_replace :: "string \<Rightarrow> 'v \<Rightarrow> 'v obj \<Rightarrow> 'v obj" where
  "obj_replace k v [] = []"
| "obj_replace k v ((k', v') # ob) =
     (if k' = k then (k', v) # ob else (k', v') # obj_replace k v ob)"

text \<open>
  \<^verbatim>\<open>ob[k] = v\<close>: an existing property keeps its place and takes the new value, a new
  property is created at the place the enumeration order gives it.
\<close>

definition obj_set :: "string \<Rightarrow> 'v \<Rightarrow> 'v obj \<Rightarrow> 'v obj" where
  "obj_set k v ob = (if obj_get k ob = None then obj_insert k v ob else obj_replace k v ob)"

definition obj_delete :: "string \<Rightarrow> 'v obj \<Rightarrow> 'v obj" where
  "obj_delete k ob = filter (\<lambda>(k', v'). k' \<noteq> k) ob"

definition obj_keys :: "'v obj \<Rightarrow> string list" where
  "obj_keys ob = map fst ob"

definition obj_values :: "'v obj \<Rightarrow> 'v list" where
  "obj_values ob = map snd ob"

text \<open>
  The names of the properties of \<^verbatim>\<open>Object.prototype\<close>. An object that has no own property
  of such a name still finds a value under it: a function, or for \<^verbatim>\<open>__proto__\<close> the
  prototype itself. All these values are truthy.
\<close>

definition inherited :: "string \<Rightarrow> bool" where
  "inherited k =
     (k \<in> set [''constructor'', ''__defineGetter__'', ''__defineSetter__'', ''hasOwnProperty'',
               ''__lookupGetter__'', ''__lookupSetter__'', ''isPrototypeOf'',
               ''propertyIsEnumerable'', ''toString'', ''valueOf'', ''__proto__'',
               ''toLocaleString''])"

text \<open>
  The assignment \<^verbatim>\<open>ob[k] = v\<close>, as far as the own properties of \<^verbatim>\<open>ob\<close> go. Of the inherited
  properties only \<^verbatim>\<open>__proto__\<close> has a setter. An object without an own property \<^verbatim>\<open>__proto__\<close>
  hands the assignment to this setter, which makes an object \<^verbatim>\<open>v\<close> the new prototype and
  ignores a number: no own property is made or changed. With an own property \<^verbatim>\<open>__proto__\<close>
  (\<^verbatim>\<open>JSON.parse\<close> makes one from a key of that name) and for every other name the
  assignment is a write of \<open>obj_set\<close>.
\<close>

definition obj_assign :: "string \<Rightarrow> 'v \<Rightarrow> 'v obj \<Rightarrow> 'v obj" where
  "obj_assign k v ob = (if k = ''__proto__'' \<and> obj_get k ob = None then ob else obj_set k v ob)"

text \<open>
  A property key that is \<^verbatim>\<open>undefined\<close> is converted to the string \<^verbatim>\<open>"undefined"\<close>.
\<close>

definition prop_key :: "string option \<Rightarrow> string" where
  "prop_key k = (case k of None \<Rightarrow> ''undefined'' | Some s \<Rightarrow> s)"

text \<open>
  Two things can go wrong in the code paths modelled here. Reading or writing a
  property of \<^verbatim>\<open>undefined\<close> throws a \<^verbatim>\<open>TypeError\<close>. A division by zero does not throw in
  JavaScript, it yields an infinity or \<^verbatim>\<open>NaN\<close>; these values do not exist in the reals, so
  the model reports them as \<open>NonFinite\<close> instead of using the value of \<open>x / 0\<close> in HOL.
\<close>

datatype error = TypeError | NonFinite

definition num_div :: "real \<Rightarrow> real \<Rightarrow> error + real" where
  "num_div a b = (if b = 0 then Inl NonFinite else Inr (a / b))"

fun forEach :: "('s \<Rightarrow> 'a \<Rightarrow> error + 's) \<Rightarrow> 's \<Rightarrow> 'a list \<Rightarrow> error + 's" where
  "forEach f s [] = Inr s"
| "forEach f s (x # xs) = (case f s x of Inl e \<Rightarrow> Inl e | Inr s' \<Rightarrow> forEach f s' xs)"

section \<open>The data model (\<^verbatim>\<open>types.ts\<close>)\<close>

record ReceiptItem =
  item_id :: string
  item_name :: string
  price :: real

record ReceiptData =
  items :: "ReceiptItem list"
  subtotal :: real
  tax :: real
  tip :: real
  receipt_total :: real

text \<open>Item id \<open>\<rightarrow>\<close> (person name \<open>\<rightarrow>\<close> share fraction).\<close>

type_synonym Assignments = "(real obj) obj"

record PersonSummary =
  name :: string
  itemsTotal :: real
  taxShare :: real
  tipShare :: real
  total :: real

section \<open>Applying operations (\<^verbatim>\<open>processSplitCommand\<close>)\<close>

text \<open>
  \<^verbatim>\<open>processSplitCommand\<close> (\<^verbatim>\<open>services/geminiService.ts\<close>) sends the command to a language
  model and applies the operations of the parsed response to a copy of the ledger. The
  call to the language model is not modelled: the operations of its response are a
  parameter. The command and the receipt only go into the prompt, and the reply text
  plays no part in the ledger.

  One element of \<^verbatim>\<open>parsed.operations\<close> has the fields of the response schema,
  \<^verbatim>\<open>robustSchema\<close>. The schema requires none of the three, so each may be missing.
\<close>

record operation =
  itemId :: "string option"
  people :: "string list option"
  action :: "string option"

text \<open>
  \<^verbatim>\<open>newAssignments[op.itemId][person] = share\<close> where the item has an own entry: the share
  map stored under the item is read and the share is assigned to the person in it. The
  share map is changed in place, so the ledger holds the changed share map at the same
  place. Without an own entry the code would find \<^verbatim>\<open>undefined\<close> and throw, or find an
  inherited object and write to that.
\<close>

definition assignPerson :: "string \<Rightarrow> real \<Rightarrow> Assignments \<Rightarrow> string \<Rightarrow> error + Assignments" where
  "assignPerson k share newAssignments person =
     (case obj_get k newAssignments of
        None \<Rightarrow> if inherited k then Inr newAssignments else Inl TypeError
      | Some shares \<Rightarrow> Inr (obj_set k (obj_assign person share shares) newAssignments))"

text \<open>
  The same line where the item id is \<^verbatim>\<open>__proto__\<close> and the ledger has no own entry of that
  name: \<^verbatim>\<open>newAssignments[op.itemId] = {}\<close> has made the empty object the prototype of the
  ledger, \<^verbatim>\<open>newAssignments[op.itemId]\<close> reads the prototype, and the share is assigned to
  the person in it. The state of this loop is the prototype, not the ledger.
\<close>

definition assignProto :: "real \<Rightarrow> real obj \<Rightarrow> string \<Rightarrow> error + real obj" where
  "assignProto share proto person = Inr (obj_assign person share proto)"

text \<open>
  The function passed to \<^verbatim>\<open>parsed.operations.forEach\<close>: a \<^verbatim>\<open>clear\<close> deletes the own entry
  of the item, if there is one; an \<^verbatim>\<open>assign\<close> with people that are there and not empty
  assigns an empty share map to the item and then gives every person \<open>1 / n\<close>; everything
  else does nothing. An \<^verbatim>\<open>assign\<close> to the item id \<^verbatim>\<open>__proto__\<close> in a ledger without an own
  entry of that name builds the share map as the prototype of the ledger and leaves the
  entries of the ledger as they are.
\<close>

definition applyOp :: "Assignments \<Rightarrow> operation \<Rightarrow> error + Assignments" where
  "applyOp newAssignments op =
     (if action op = Some ''clear'' then
        Inr (obj_delete (prop_key (itemId op)) newAssignments)
      else if action op = Some ''assign'' then
        (case people op of
           None \<Rightarrow> Inr newAssignments
         | Some ps \<Rightarrow>
             if length ps > 0 then
               (case num_div 1.0 (real (length ps)) of
                  Inl e \<Rightarrow> Inl e
                | Inr share \<Rightarrow>
                    if prop_key (itemId op) = ''__proto__'' \<and>
                       obj_get (prop_key (itemId op)) newAssignments = None
                    then
                      (case forEach (assignProto share) [] ps of
                         Inl e \<Rightarrow> Inl e
                       | Inr proto \<Rightarrow> Inr newAssignments)
                    else
                      forEach (assignPerson (prop_key (itemId op)) share)
                        (obj_set (prop_key (itemId op)) [] newAssignments) ps)
             else Inr newAssignments)
      else Inr newAssignments)"

text \<open>
  The operations are applied to \<^verbatim>\<open>JSON.parse(JSON.stringify(currentAssignments))\<close>, a deep
  copy with the same properties in the same order, which as a value is
  \<open>currentAssignments\<close> itself. A response without \<^verbatim>\<open>operations\<close> changes nothing.
\<close>

definition processSplitCommand :: "operation list option \<Rightarrow> Assignments \<Rightarrow> error + Assignments" where
  "processSplitCommand parsed_operations currentAssignments =
     (case parsed_operations of
        None \<Rightarrow> Inr currentAssignments
      | Some ops \<Rightarrow> forEach applyOp currentAssignments ops)"

text \<open>The two well-formed operations, \<^verbatim>\<open>assign\<close> and \<^verbatim>\<open>clear\<close>, as the responses carry them.\<close>

definition assign :: "string \<Rightarrow> string list \<Rightarrow> operation" where
  "assign i ps = \<lparr>itemId = Some i, people = Some ps, action = Some ''assign''\<rparr>"

definition clear :: "string \<Rightarrow> operation" where
  "clear i = \<lparr>itemId = Some i, people = None, action = Some ''clear''\<rparr>"

text \<open>
  What the loop over \<^verbatim>\<open>op.people\<close> leaves in the share map of the item: every listed
  person in turn is given \<open>share\<close>.
\<close>

definition equalShares :: "real \<Rightarrow> string list \<Rightarrow> real obj \<Rightarrow> real obj" where
  "equalShares share ps shares = foldl (\<lambda>ob p. obj_assign p share ob) shares ps"

text \<open>The invariant of the ledger: every stored share lies in \<open>(0, 1]\<close>.\<close>

definition shares_ok :: "real obj \<Rightarrow> bool" where
  "shares_ok shares = list_all (\<lambda>(p, s). 0 < s \<and> s \<le> 1) shares"

definition ledger_inv :: "Assignments \<Rightarrow> bool" where
  "ledger_inv L = list_all (\<lambda>(i, shares). shares_ok shares) L"

section \<open>The summary (\<^verbatim>\<open>summaryData\<close> in \<^verbatim>\<open>Summary.tsx\<close>)\<close>

text \<open>
  \<open>summaryData\<close> is the value that the component \<^verbatim>\<open>Summary\<close> computes from its two
  properties and then displays: the \<^verbatim>\<open>summarize\<close> of the specification. The receipt may be
  \<^verbatim>\<open>null\<close>.
\<close>

definition newPerson :: "string \<Rightarrow> PersonSummary" where
  "newPerson person = \<lparr>name = person, itemsTotal = 0, taxShare = 0, tipShare = 0, total = 0\<rparr>"

text \<open>
  The body of the inner loop, for one key of \<^verbatim>\<open>itemAssigns\<close>. A key without a value
  would make the cost \<^verbatim>\<open>NaN\<close>. \<^verbatim>\<open>!peopleMap[person]\<close> holds when \<^verbatim>\<open>peopleMap\<close> has no own entry
  for the person and the name is not that of an inherited property; then the entry is
  made. \<^verbatim>\<open>peopleMap[person].itemsTotal += cost\<close> changes the own entry where there is one.
  Where there is none and the name is inherited, the sum is written to the inherited
  object and \<^verbatim>\<open>peopleMap\<close> stays as it is: such a person gets no row.
\<close>

definition addShare ::
  "ReceiptItem \<Rightarrow> real obj \<Rightarrow> PersonSummary obj \<Rightarrow> string \<Rightarrow> error + PersonSummary obj" where
  "addShare item itemAssigns peopleMap person =
     (case obj_get person itemAssigns of
        None \<Rightarrow> Inl NonFinite
      | Some share \<Rightarrow>
          (let cost = price item * share;
               peopleMap1 = (if obj_get person peopleMap = None \<and> \<not> inherited person
                             then obj_set person (newPerson person) peopleMap
                             else peopleMap)
           in case obj_get person peopleMap1 of
                None \<Rightarrow> if inherited person then Inr peopleMap1 else Inl TypeError
              | Some entry \<Rightarrow>
                  Inr (obj_set person (entry\<lparr>itemsTotal := itemsTotal entry + cost\<rparr>) peopleMap1)))"

text \<open>
  The body of the outer loop. \<^verbatim>\<open>assignments[item.id] || {}\<close> is the own entry of the ledger
  for the item, if there is one. The ids that \<^verbatim>\<open>parseReceiptImage\<close> gives are \<^verbatim>\<open>item-0\<close>,
  \<^verbatim>\<open>item-1\<close>, ...: such an id names no property of \<^verbatim>\<open>Object.prototype\<close>, so without an own
  entry the item contributes nobody. The lookup is modelled for ids of this kind; an id
  that is the name of an inherited property is read in the same way, as an id without a
  share map when the ledger has no own entry for it.
\<close>

definition addItem ::
  "Assignments \<Rightarrow> PersonSummary obj \<Rightarrow> ReceiptItem \<Rightarrow> error + PersonSummary obj" where
  "addItem assignments peopleMap item =
     (let itemAssigns = (case obj_get (item_id item) assignments of None \<Rightarrow> [] | Some a \<Rightarrow> a);
          people = obj_keys itemAssigns
      in forEach (addShare item itemAssigns) peopleMap people)"

definition allocate :: "ReceiptData \<Rightarrow> real \<Rightarrow> PersonSummary \<Rightarrow> error + PersonSummary" where
  "allocate receiptData safeSubtotal person =
     (case num_div (itemsTotal person) safeSubtotal of
        Inl e \<Rightarrow> Inl e
      | Inr ratio \<Rightarrow>
          Inr (person\<lparr>taxShare := tax receiptData * ratio,
                      tipShare := tip receiptData * ratio,
                      total := itemsTotal person + tax receiptData * ratio + tip receiptData * ratio\<rparr>))"

fun mapE :: "('a \<Rightarrow> error + 'b) \<Rightarrow> 'a list \<Rightarrow> error + 'b list" where
  "mapE f [] = Inr []"
| "mapE f (x # xs) =
     (case f x of
        Inl e \<Rightarrow> Inl e
      | Inr y \<Rightarrow> (case mapE f xs of Inl e \<Rightarrow> Inl e | Inr ys \<Rightarrow> Inr (y # ys)))"

text \<open>
  \<^verbatim>\<open>Array.prototype.sort\<close> with a comparison function is a stable sort. With a
  consistent comparison function the result does not depend on the algorithm; the
  model inserts every element, from the last to the first, before the first element
  it does not have to follow.
\<close>

fun sort_insert :: "('a \<Rightarrow> 'a \<Rightarrow> real) \<Rightarrow> 'a \<Rightarrow> 'a list \<Rightarrow> 'a list" where
  "sort_insert cmp x [] = [x]"
| "sort_insert cmp x (y # ys) =
     (if cmp x y \<le> 0 then x # y # ys else y # sort_insert cmp x ys)"

definition array_sort :: "('a \<Rightarrow> 'a \<Rightarrow> real) \<Rightarrow> 'a list \<Rightarrow> 'a list" where
  "array_sort cmp xs = foldr (sort_insert cmp) xs []"

definition summaryData :: "ReceiptData option \<Rightarrow> Assignments \<Rightarrow> error + PersonSummary list" where
  "summaryData receiptData assignments =
     (case receiptData of
        None \<Rightarrow> Inr []
      | Some r \<Rightarrow>
          (case forEach (addItem assignments) [] (items r) of
             Inl e \<Rightarrow> Inl e
           | Inr peopleMap \<Rightarrow>
               (let peopleList = obj_values peopleMap;
                    safeSubtotal = (if subtotal r = 0 then 1 else subtotal r)
                in case mapE (allocate r safeSubtotal) peopleList of
                     Inl e \<Rightarrow> Inl e
                   | Inr allocated \<Rightarrow> Inr (array_sort (\<lambda>a b. total b - total a) allocated))))"

text \<open>
  The people met while the item totals are accumulated, in the order in which the two
  nested loops visit them (with repetitions), and the order in which they are first seen.
\<close>

definition itemAssignsOf :: "Assignments \<Rightarrow> ReceiptItem \<Rightarrow> real obj" where
  "itemAssignsOf assignments item =
     (case obj_get (item_id item) assignments of None \<Rightarrow> [] | Some a \<Rightarrow> a)"


fun firstSeen :: "string list \<Rightarrow> string list" where
  "firstSeen [] = []"
| "firstSeen (x # xs) = x # removeAll x (firstSeen xs)"

section \<open>The same operations on a heap of mutable objects\<close>

text \<open>
  \<^verbatim>\<open>processSplitCommand\<close> receives a reference to the current ledger, copies the ledger and
  mutates the copy. To say that the caller's ledger is not touched, the objects are put
  on a heap: an address is an index into the list of all objects allocated so far, a
  ledger object maps item ids to the addresses of share maps. As in the model on values
  an object is its own properties; the heap does not record which object is the
  prototype of which.
\<close>

datatype hobj = LedgerObj "nat obj" | SharesObj "real obj"

type_synonym heap = "hobj list"

definition alloc :: "hobj \<Rightarrow> heap \<Rightarrow> nat \<times> heap" where
  "alloc ob h = (length h, h @ [ob])"

definition readLedger :: "heap \<Rightarrow> nat \<Rightarrow> error + nat obj" where
  "readLedger h a =
     (if a < length h then (case h ! a of LedgerObj m \<Rightarrow> Inr m | SharesObj s \<Rightarrow> Inl TypeError)
      else Inl TypeError)"

definition readShares :: "heap \<Rightarrow> nat \<Rightarrow> error + real obj" where
  "readShares h a =
     (if a < length h then (case h ! a of SharesObj s \<Rightarrow> Inr s | LedgerObj m \<Rightarrow> Inl TypeError)
      else Inl TypeError)"

text \<open>
  \<^verbatim>\<open>JSON.parse(JSON.stringify(currentAssignments))\<close>: every share map is read and written
  out, and parsing the text allocates a new share map for each item and a new ledger.
\<close>

fun copyEntries :: "nat obj \<Rightarrow> heap \<Rightarrow> error + (nat obj \<times> heap)" where
  "copyEntries [] h = Inr ([], h)"
| "copyEntries ((k, a) # es) h =
     (case readShares h a of
        Inl e \<Rightarrow> Inl e
      | Inr s \<Rightarrow>
          (case alloc (SharesObj s) h of
             (a', h1) \<Rightarrow>
               (case copyEntries es h1 of
                  Inl e \<Rightarrow> Inl e
                | Inr (es', h2) \<Rightarrow> Inr ((k, a') # es', h2))))"

definition jsonCopy :: "heap \<Rightarrow> nat \<Rightarrow> error + (nat \<times> heap)" where
  "jsonCopy h a =
     (case readLedger h a of
        Inl e \<Rightarrow> Inl e
      | Inr m \<Rightarrow>
          (case copyEntries m h of
             Inl e \<Rightarrow> Inl e
           | Inr (m', h1) \<Rightarrow> Inr (alloc (LedgerObj m') h1)))"

definition heapAssignPerson :: "nat \<Rightarrow> string \<Rightarrow> real \<Rightarrow> heap \<Rightarrow> string \<Rightarrow> error + heap" where
  "heapAssignPerson newAssignments k share h person =
     (case readLedger h newAssignments of
        Inl e \<Rightarrow> Inl e
      | Inr m \<Rightarrow>
          (case obj_get k m of
             None \<Rightarrow> if inherited k then Inr h else Inl TypeError
           | Some a \<Rightarrow>
               (case readShares h a of
                  Inl e \<Rightarrow> Inl e
                | Inr shares \<Rightarrow> Inr (h[a := SharesObj (obj_assign person share shares)]))))"

text \<open>
  The same line for the item id \<^verbatim>\<open>__proto__\<close> in a ledger without an own entry of that
  name: the object at \<open>proto\<close> is the prototype of the ledger, and the share is assigned to
  the person in it.
\<close>

definition heapAssignProto :: "nat \<Rightarrow> real \<Rightarrow> heap \<Rightarrow> string \<Rightarrow> error + heap" where
  "heapAssignProto proto share h person =
     (case readShares h proto of
        Inl e \<Rightarrow> Inl e
      | Inr shares \<Rightarrow> Inr (h[proto := SharesObj (obj_assign person share shares)]))"

definition heapApplyOp :: "nat \<Rightarrow> heap \<Rightarrow> operation \<Rightarrow> error + heap" where
  "heapApplyOp newAssignments h op =
     (if action op = Some ''clear'' then
        (case readLedger h newAssignments of
           Inl e \<Rightarrow> Inl e
         | Inr m \<Rightarrow> Inr (h[newAssignments := LedgerObj (obj_delete (prop_key (itemId op)) m)]))
      else if action op = Some ''assign'' then
        (case people op of
           None \<Rightarrow> Inr h
         | Some ps \<Rightarrow>
             if length ps > 0 then
               (case num_div 1.0 (real (length ps)) of
                  Inl e \<Rightarrow> Inl e
                | Inr share \<Rightarrow>
                    (case readLedger h newAssignments of
                       Inl e \<Rightarrow> Inl e
                     | Inr m \<Rightarrow>
                         (case alloc (SharesObj []) h of
                            (a, h1) \<Rightarrow>
                              if prop_key (itemId op) = ''__proto__'' \<and>
                                 obj_get (prop_key (itemId op)) m = None
                              then forEach (heapAssignProto a share) h1 ps
                              else
                                forEach (heapAssignPerson newAssignments (prop_key (itemId op)) share)
                                  (h1[newAssignments := LedgerObj (obj_set (prop_key (itemId op)) a m)])
                                  ps)))
             else Inr h)
      else Inr h)"

definition heapProcessSplitCommand ::
  "operation list option \<Rightarrow> nat \<Rightarrow> heap \<Rightarrow> error + (nat \<times> heap)" where
  "heapProcessSplitCommand parsed_operations currentAssignments h =
     (case jsonCopy h currentAssignments of
        Inl e \<Rightarrow> Inl e
      | Inr (newAssignments, h1) \<Rightarrow>
          (case parsed_operations of
             None \<Rightarrow> Inr (newAssignments, h1)
           | Some ops \<Rightarrow>
               (case forEach (heapApplyOp newAssignments) h1 ops of
                  Inl e \<Rightarrow> Inl e
                | Inr h2 \<Rightarrow> Inr (newAssignments, h2))))"

text \<open>The ledger that a reference denotes: the ledger object with its share maps read in.\<close>

fun resolve :: "heap \<Rightarrow> nat obj \<Rightarrow> Assignments option" where
  "resolve h [] = Some []"
| "resolve h ((k, a) # es) =
     (case readShares h a of
        Inl e \<Rightarrow> None
      | Inr s \<Rightarrow> (case resolve h es of None \<Rightarrow> None | Some L \<Rightarrow> Some ((k, s) # L)))"

definition ledgerAt :: "heap \<Rightarrow> nat \<Rightarrow> Assignments option" where
  "ledgerAt h a = (case readLedger h a of Inl e \<Rightarrow> None | Inr m \<Rightarrow> resolve h m)"

section \<open>Auxiliary functions for the proofs\<close>

text \<open>
  \<open>setShares\<close> gives every listed person the share by a plain write; it is what
  \<open>equalShares\<close> does with the people other than \<^verbatim>\<open>__proto__\<close>.

  The loops of \<open>summaryData\<close> never take an error branch, so they can be written as plain
  folds: \<open>addCost\<close> is one round of the inner loop (\<open>bump\<close> for a person who gets or has an
  entry), \<open>itemTotals\<close> the inner loop for one item, \<open>peopleMapOf\<close> the finished
  \<^verbatim>\<open>peopleMap\<close>, \<open>allocated\<close> the tax and tip of one person and \<open>rowsOf\<close> the sorted list.
  \<open>charges\<close> lists the pairs of a person and a cost in the order in which the loops meet
  them, \<open>kept\<close> those of them that reach \<^verbatim>\<open>peopleMap\<close>. \<open>key_order\<close> says that a key may stand before
  another one in the enumeration of an object: an array index is never preceded by a key
  that is not one, nor by a larger index.
\<close>

definition setShares :: "real \<Rightarrow> string list \<Rightarrow> real obj \<Rightarrow> real obj" where
  "setShares share ps shares = foldl (\<lambda>ob p. obj_set p share ob) shares ps"

definition bump :: "string \<Rightarrow> real \<Rightarrow> PersonSummary obj \<Rightarrow> PersonSummary obj" where
  "bump person cost peopleMap =
     (let entry = (case obj_get person peopleMap of None \<Rightarrow> newPerson person | Some e \<Rightarrow> e)
      in obj_set person (entry\<lparr>itemsTotal := itemsTotal entry + cost\<rparr>) peopleMap)"

definition addCost :: "string \<Rightarrow> real \<Rightarrow> PersonSummary obj \<Rightarrow> PersonSummary obj" where
  "addCost person cost peopleMap =
     (if obj_get person peopleMap = None \<and> inherited person then peopleMap
      else bump person cost peopleMap)"

definition itemTotals :: "Assignments \<Rightarrow> PersonSummary obj \<Rightarrow> ReceiptItem \<Rightarrow> PersonSummary obj" where
  "itemTotals assignments peopleMap item =
     foldl (\<lambda>pm person.
         addCost person
           (price item *
              (case obj_get person (itemAssignsOf assignments item) of None \<Rightarrow> 0 | Some s \<Rightarrow> s))
           pm)
       peopleMap (obj_keys (itemAssignsOf assignments item))"

definition peopleMapOf :: "ReceiptData \<Rightarrow> Assignments \<Rightarrow> PersonSummary obj" where
  "peopleMapOf r assignments = foldl (itemTotals assignments) [] (items r)"

definition safeSubtotalOf :: "ReceiptData \<Rightarrow> real" where
  "safeSubtotalOf r = (if subtotal r = 0 then 1 else subtotal r)"

definition allocated :: "ReceiptData \<Rightarrow> PersonSummary \<Rightarrow> PersonSummary" where
  "allocated r person =
     person\<lparr>taxShare := tax r * (itemsTotal person / safeSubtotalOf r),
            tipShare := tip r * (itemsTotal person / safeSubtotalOf r),
            total := itemsTotal person + tax r * (itemsTotal person / safeSubtotalOf r) +
                     tip r * (itemsTotal person / safeSubtotalOf r)\<rparr>"







text \<open>
  What one operation on the heap keeps: the heap grows, and of the objects that were
  there only the new ledger changes.
\<close>

definition grows :: "nat \<Rightarrow> heap \<Rightarrow> heap \<Rightarrow> bool" where
  "grows na h h' = (length h \<le> length h' \<and> (\<forall>b < length h. b \<noteq> na \<longrightarrow> h' ! b = h ! b))"

section \<open>Properties of objects\<close>

lemma obj_get_insert_absent: "obj_get k ob = None \<Longrightarrow> obj_get k (obj_insert k v ob) = Some v"
  unfolding obj_get_def by (induction ob) (auto split: if_splits)

lemma obj_get_insert_other: "k' \<noteq> k \<Longrightarrow> obj_get k' (obj_insert k v ob) = obj_get k' ob"
  unfolding obj_get_def by (induction ob) auto

lemma obj_get_replace:
  "obj_get k' (obj_replace k v ob) =
     (if k' = k then (if obj_get k ob = None then None else Some v) else obj_get k' ob)"
  unfolding obj_get_def by (induction ob) auto

lemma obj_get_set_same: "obj_get k (obj_set k v ob) = Some v"
  by (simp add: obj_set_def obj_get_insert_absent obj_get_replace)

lemma obj_get_set_other: "k' \<noteq> k \<Longrightarrow> obj_get k' (obj_set k v ob) = obj_get k' ob"
  by (simp add: obj_set_def obj_get_insert_other obj_get_replace)

lemma obj_get_delete_same: "obj_get k (obj_delete k ob) = None"
  unfolding obj_get_def obj_delete_def by (induction ob) auto

lemma obj_get_delete_other: "k' \<noteq> k \<Longrightarrow> obj_get k' (obj_delete k ob) = obj_get k' ob"
  unfolding obj_get_def obj_delete_def by (induction ob) auto

lemma obj_replace_absent: "obj_get k ob = None \<Longrightarrow> obj_replace k v ob = ob"
  unfolding obj_get_def by (induction ob) (auto split: if_splits)

lemma obj_replace_insert:
  "obj_get k ob = None \<Longrightarrow> obj_replace k w (obj_insert k v ob) = obj_insert k w ob"
  unfolding obj_get_def
  by (induction ob) (auto split: if_splits simp: obj_replace_absent [unfolded obj_get_def])

lemma obj_replace_replace: "obj_replace k w (obj_replace k v ob) = obj_replace k w ob"
  by (induction ob) auto

lemma obj_set_set: "obj_set k w (obj_set k v ob) = obj_set k w ob"
proof (cases "obj_get k ob")
  case None
  then show ?thesis
    using obj_get_set_same [of k v ob] by (simp add: obj_set_def obj_replace_insert)
next
  case (Some a)
  then show ?thesis
    using obj_get_set_same [of k v ob] by (simp add: obj_set_def obj_replace_replace)
qed

lemma obj_replace_unchanged: "obj_get k ob = Some v \<Longrightarrow> obj_replace k v ob = ob"
  unfolding obj_get_def by (induction ob) (auto split: if_splits)

lemma obj_set_unchanged: "obj_get k ob = Some v \<Longrightarrow> obj_set k v ob = ob"
  by (simp add: obj_set_def obj_replace_unchanged)

lemma forEach_append:
  "forEach f s (xs @ ys) =
     (case forEach f s xs of Inl e \<Rightarrow> Inl e | Inr s' \<Rightarrow> forEach f s' ys)"
  by (induction xs arbitrary: s) (auto split: sum.splits)

lemma forEach_total:
  "(\<And>s x. \<exists>s'. f s x = Inr s') \<Longrightarrow> \<exists>s'. forEach f s xs = Inr s'"
proof (induction xs arbitrary: s)
  case Nil
  show ?case by simp
next
  case (Cons x xs)
  from Cons.prems obtain s1 where "f s x = Inr s1" by blast
  with Cons show ?case by simp
qed

lemma obj_assign_proto: "obj_get ''__proto__'' ob = None \<Longrightarrow> obj_assign ''__proto__'' v ob = ob"
  by (simp add: obj_assign_def)

lemma obj_assign_set: "k \<noteq> ''__proto__'' \<Longrightarrow> obj_assign k v ob = obj_set k v ob"
  by (simp add: obj_assign_def)

lemma obj_get_assign_other: "k' \<noteq> k \<Longrightarrow> obj_get k' (obj_assign k v ob) = obj_get k' ob"
  by (simp add: obj_assign_def obj_get_set_other)

lemma obj_get_assign_same:
  "obj_get k (obj_assign k v ob) =
     (if k = ''__proto__'' \<and> obj_get k ob = None then None else Some v)"
  by (auto simp: obj_assign_def obj_get_set_same)

section \<open>What one operation does\<close>

lemma forEach_assignPerson:
  "obj_get k A = Some shares \<Longrightarrow>
   forEach (assignPerson k share) A ps = Inr (obj_set k (equalShares share ps shares) A)"
proof (induction ps arbitrary: A shares)
  case Nil
  then show ?case by (simp add: equalShares_def obj_set_unchanged)
next
  case (Cons p ps)
  then show ?case
    by (simp add: assignPerson_def equalShares_def obj_get_set_same obj_set_set)
qed

lemma forEach_assignProto: "forEach (assignProto share) proto ps = Inr (equalShares share ps proto)"
  by (induction ps arbitrary: proto) (simp_all add: assignProto_def equalShares_def)

lemma applyOp_clear:
  "action op = Some ''clear'' \<Longrightarrow> applyOp A op = Inr (obj_delete (prop_key (itemId op)) A)"
  by (simp add: applyOp_def)

lemma applyOp_assign:
  assumes "action op = Some ''assign''" and "people op = Some ps" and "ps \<noteq> []"
  shows "applyOp A op =
     Inr (obj_assign (prop_key (itemId op)) (equalShares (1 / real (length ps)) ps []) A)"
proof (cases "prop_key (itemId op) = ''__proto__'' \<and> obj_get (prop_key (itemId op)) A = None")
  case True
  then have "obj_assign (prop_key (itemId op)) (equalShares (1 / real (length ps)) ps []) A = A"
    by (auto simp: obj_assign_def)
  moreover from True have k: "prop_key (itemId op) = ''__proto__''" by simp
  with True have "obj_get ''__proto__'' A = None" by simp
  with k have "applyOp A op = Inr A"
    using assms by (simp add: applyOp_def num_div_def forEach_assignProto)
  ultimately show ?thesis by simp
next
  case False
  then have "obj_assign (prop_key (itemId op)) (equalShares (1 / real (length ps)) ps []) A =
      obj_set (prop_key (itemId op)) (equalShares (1 / real (length ps)) ps []) A"
    by (auto simp: obj_assign_def)
  moreover have "obj_get (prop_key (itemId op)) (obj_set (prop_key (itemId op)) [] A) = Some []"
    by (rule obj_get_set_same)
  then have "applyOp A op =
      Inr (obj_set (prop_key (itemId op)) (equalShares (1 / real (length ps)) ps []) A)"
    using assms False
    by (auto simp: applyOp_def num_div_def forEach_assignPerson obj_set_set)
  ultimately show ?thesis by simp
qed


lemma applyOp_ignored:
  "action op \<noteq> Some ''clear'' \<Longrightarrow>
   action op \<noteq> Some ''assign'' \<or> people op = None \<or> people op = Some [] \<Longrightarrow>
   applyOp A op = Inr A"
  by (auto simp: applyOp_def)

lemma applyOp_total: "\<exists>A'. applyOp A op = Inr A'"
proof (cases "action op = Some ''clear''")
  case True
  then show ?thesis by (simp add: applyOp_clear)
next
  case False
  show ?thesis
  proof (cases "action op = Some ''assign'' \<and> (\<exists>ps. people op = Some ps \<and> ps \<noteq> [])")
    case True
    then show ?thesis by (auto simp: applyOp_assign)
  next
    case False
    with \<open>action op \<noteq> Some ''clear''\<close> have "applyOp A op = Inr A"
      by (cases "people op") (auto simp: applyOp_def)
    then show ?thesis by simp
  qed
qed

lemma processSplitCommand_total: "\<exists>L'. processSplitCommand parsed L = Inr L'"
  by (cases parsed) (simp_all add: processSplitCommand_def forEach_total applyOp_total)

lemma assign_simps [simp]:
  "action (assign i ps) = Some ''assign''" "people (assign i ps) = Some ps"
  "itemId (assign i ps) = Some i"
  by (simp_all add: assign_def)

lemma clear_simps [simp]:
  "action (clear i) = Some ''clear''" "itemId (clear i) = Some i"
  by (simp_all add: clear_def)

lemma prop_key_Some [simp]: "prop_key (Some k) = k"
  by (simp add: prop_key_def)

lemma equalShares_single: "p \<noteq> ''__proto__'' \<Longrightarrow> equalShares share [p] [] = [(p, share)]"
  by (simp add: equalShares_def obj_assign_def obj_set_def obj_get_def)

lemma equalShares_proto: "equalShares share [''__proto__''] [] = []"
  by (simp add: equalShares_def obj_assign_def obj_get_def)

section \<open>Claims about the operations\<close>







text \<open>
  Claim C4. Applying a batch never fails, whatever the response holds: a missing list of
  operations, operations with missing fields, unknown actions. An operation whose action
  is neither \<^verbatim>\<open>assign\<close> nor \<^verbatim>\<open>clear\<close>, and an \<^verbatim>\<open>assign\<close> whose people are missing or empty,
  changes nothing, and the batch gives the same result as the batch without it. The batch
  \<^verbatim>\<open>[assign("item-9", [])]\<close> returns every ledger unchanged.
\<close>

theorem apply_total_absorbs_malformed:
  "(\<exists>L'. processSplitCommand parsed L = Inr L') \<and>
   (action op \<noteq> Some ''clear'' \<and>
    (action op \<noteq> Some ''assign'' \<or> people op = None \<or> people op = Some []) \<longrightarrow>
      applyOp L op = Inr L \<and>
      processSplitCommand (Some (before @ op # after)) L =
        processSplitCommand (Some (before @ after)) L) \<and>
   processSplitCommand (Some [assign ''item-9'' []]) L = Inr L"
proof (intro conjI impI)
  show "\<exists>L'. processSplitCommand parsed L = Inr L'"
    by (rule processSplitCommand_total)
next
  assume bad: "action op \<noteq> Some ''clear'' \<and>
    (action op \<noteq> Some ''assign'' \<or> people op = None \<or> people op = Some [])"
  then have noop: "applyOp A op = Inr A" for A
    by (intro applyOp_ignored) auto
  show "applyOp L op = Inr L" by (rule noop)
  show "processSplitCommand (Some (before @ op # after)) L =
        processSplitCommand (Some (before @ after)) L"
    by (simp add: processSplitCommand_def forEach_append noop split: sum.splits)
next
  show "processSplitCommand (Some [assign ''item-9'' []]) L = Inr L"
    by (simp add: processSplitCommand_def applyOp_ignored)
qed

theorem apply_total_absorbs_malformed_witness:
  "action \<lparr>itemId = Some ''item-0'', people = Some [''Tom''], action = Some ''split''\<rparr> =
     Some ''split'' \<and>
   processSplitCommand
     (Some ([assign ''item-1'' [''Tom'']] @
        \<lparr>itemId = Some ''item-0'', people = Some [''Tom''], action = Some ''split''\<rparr> # [clear ''item-0'']))
     [(''item-0'', [(''Ann'', 1.0)])] =
   processSplitCommand (Some ([assign ''item-1'' [''Tom'']] @ [clear ''item-0'']))
     [(''item-0'', [(''Ann'', 1.0)])] \<and>
   processSplitCommand (Some ([assign ''item-1'' [''Tom'']] @ [clear ''item-0'']))
     [(''item-0'', [(''Ann'', 1.0)])] = Inr [(''item-1'', [(''Tom'', 1.0)])]"
proof -
  have ev: "processSplitCommand (Some ([assign ''item-1'' [''Tom'']] @ [clear ''item-0'']))
     [(''item-0'', [(''Ann'', 1.0)])] = Inr [(''item-1'', [(''Tom'', 1.0)])]"
    by (simp add: processSplitCommand_def applyOp_assign applyOp_clear equalShares_single
      obj_assign_def obj_set_def obj_get_def obj_delete_def goes_before_def
      is_array_index_def is_digit_def)
  show ?thesis
  using apply_total_absorbs_malformed
    [of None "[(''item-0'', [(''Ann'', 1.0)])]"
      "\<lparr>itemId = Some ''item-0'', people = Some [''Tom''], action = Some ''split''\<rparr>"
      "[assign ''item-1'' [''Tom'']]" "[clear ''item-0'']"] ev
  by simp
qed

section \<open>The share maps written by an assign and the ledger invariant\<close>

lemma set_obj_insert: "set (obj_insert k v ob) = insert (k, v) (set ob)"
  by (induction ob) (auto split: if_splits)

lemma set_obj_replace: "set (obj_replace k v ob) \<subseteq> insert (k, v) (set ob)"
  by (induction ob) (auto split: if_splits)

lemma set_obj_set: "set (obj_set k v ob) \<subseteq> insert (k, v) (set ob)"
  using set_obj_replace [of k v ob] by (simp add: obj_set_def set_obj_insert)

lemma set_obj_assign: "set (obj_assign k v ob) \<subseteq> insert (k, v) (set ob)"
  using set_obj_set [of k v ob] by (auto simp: obj_assign_def)

lemma set_obj_delete: "set (obj_delete k ob) \<subseteq> set ob"
  by (auto simp: obj_delete_def)

lemma obj_get_None_iff: "obj_get k ob = None \<longleftrightarrow> k \<notin> set (obj_keys ob)"
  by (simp add: obj_get_def obj_keys_def map_of_eq_None_iff)






lemma set_setShares:
  "set (setShares share ps shares) \<subseteq> set shares \<union> (\<lambda>p. (p, share)) ` set ps"
  unfolding setShares_def
proof (induction ps arbitrary: shares)
  case Nil
  show ?case by simp
next
  case (Cons q ps)
  have "set (foldl (\<lambda>ob p. obj_set p share ob) (obj_set q share shares) ps)
      \<subseteq> set (obj_set q share shares) \<union> (\<lambda>p. (p, share)) ` set ps"
    by (rule Cons.IH)
  with set_obj_set [of q share shares] show ?case by auto
qed



lemma equalShares_setShares:
  "obj_get ''__proto__'' shares = None \<Longrightarrow>
   equalShares share ps shares = setShares share (filter (\<lambda>p. p \<noteq> ''__proto__'') ps) shares"
proof (induction ps arbitrary: shares)
  case Nil
  show ?case by (simp add: equalShares_def setShares_def)
next
  case (Cons q ps)
  show ?case
  proof (cases "q = ''__proto__''")
    case True
    then have "obj_assign q share shares = shares"
      using Cons.prems by (simp add: obj_assign_proto)
    with Cons.IH [OF Cons.prems] True show ?thesis
      by (simp add: equalShares_def setShares_def)
  next
    case False
    then have a: "obj_assign q share shares = obj_set q share shares"
      by (rule obj_assign_set)
    have "obj_get ''__proto__'' (obj_set q share shares) = None"
      using False Cons.prems by (simp add: obj_get_set_other)
    from Cons.IH [OF this] a False show ?thesis
      by (simp add: equalShares_def setShares_def)
  qed
qed

lemma equalShares_new:
  "equalShares share ps [] = setShares share (filter (\<lambda>p. p \<noteq> ''__proto__'') ps) []"
  by (rule equalShares_setShares) (simp add: obj_get_def)

lemma set_equalShares:
  "set (equalShares share ps []) \<subseteq> (\<lambda>p. (p, share)) ` set ps"
  using set_setShares [of share "filter (\<lambda>p. p \<noteq> ''__proto__'') ps" "[]"]
  by (auto simp: equalShares_new)

lemma shares_ok_iff: "shares_ok shares \<longleftrightarrow> (\<forall>(p, s) \<in> set shares. 0 < s \<and> s \<le> 1)"
  by (simp add: shares_ok_def list_all_iff)

lemma ledger_inv_iff: "ledger_inv L \<longleftrightarrow> (\<forall>(i, shares) \<in> set L. shares_ok shares)"
  by (simp add: ledger_inv_def list_all_iff)

lemma shares_ok_equalShares:
  assumes "ps \<noteq> []"
  shows "shares_ok (equalShares (1 / real (length ps)) ps [])"
proof -
  have pos: "0 < real (length ps)" using assms by simp
  then have "1 \<le> real (length ps)" using assms
    by (metis One_nat_def Suc_leI length_greater_0_conv of_nat_1 of_nat_le_iff)
  with pos have "0 < 1 / real (length ps) \<and> 1 / real (length ps) \<le> 1" by simp
  with set_equalShares [of "1 / real (length ps)" ps] show ?thesis
    by (auto simp: shares_ok_iff)
qed

lemma ledger_inv_applyOp:
  assumes "ledger_inv A" and "applyOp A op = Inr A'"
  shows "ledger_inv A'"
proof (cases "action op = Some ''clear''")
  case True
  with assms set_obj_delete [of "prop_key (itemId op)" A] show ?thesis
    by (auto simp: applyOp_clear ledger_inv_iff)
next
  case notclear: False
  show ?thesis
  proof (cases "action op = Some ''assign'' \<and> (\<exists>ps. people op = Some ps \<and> ps \<noteq> [])")
    case True
    then obtain ps where ps: "action op = Some ''assign''" "people op = Some ps" "ps \<noteq> []"
      by blast
    from assms(2) have "A' = obj_assign (prop_key (itemId op)) (equalShares (1 / real (length ps)) ps []) A"
      by (simp add: applyOp_assign [OF ps])
    with assms(1) shares_ok_equalShares [OF ps(3)]
      set_obj_assign [of "prop_key (itemId op)" "equalShares (1 / real (length ps)) ps []" A]
    show ?thesis by (auto simp: ledger_inv_iff)
  next
    case False
    with notclear have "applyOp A op = Inr A"
      by (cases "people op") (auto simp: applyOp_def)
    with assms show ?thesis by simp
  qed
qed

lemma forEach_invariant:
  assumes "\<And>s x s'. P s \<Longrightarrow> f s x = Inr s' \<Longrightarrow> P s'"
  shows "P s \<Longrightarrow> forEach f s xs = Inr s' \<Longrightarrow> P s'"
proof (induction xs arbitrary: s)
  case Nil
  then show ?case by simp
next
  case (Cons x xs)
  then show ?case using assms by (auto split: sum.splits)
qed

lemma ledger_inv_processSplitCommand:
  "ledger_inv L \<Longrightarrow> processSplitCommand parsed L = Inr L' \<Longrightarrow> ledger_inv L'"
proof (cases parsed)
  case None
  assume "ledger_inv L" "processSplitCommand parsed L = Inr L'"
  with None show ?thesis by (simp add: processSplitCommand_def)
next
  case (Some ops)
  assume "ledger_inv L" "processSplitCommand parsed L = Inr L'"
  with Some forEach_invariant [of ledger_inv applyOp L ops L'] ledger_inv_applyOp
  show ?thesis by (auto simp: processSplitCommand_def)
qed

lemma obj_delete_absent: "obj_get k ob = None \<Longrightarrow> obj_delete k ob = ob"
  unfolding obj_get_def obj_delete_def by (induction ob) (auto split: if_splits)





text \<open>
  Claim C9. If every share stored in the ledger lies in \<open>(0, 1]\<close> (so that nobody is a
  key with share \<open>0\<close>), the same holds of the ledger returned for any response; this needs
  no restriction on the people of the operations. A \<^verbatim>\<open>clear(i)\<close> applied to its own result
  returns it unchanged, and a \<^verbatim>\<open>clear\<close> of an item that has no entry returns the ledger
  unchanged.
\<close>

theorem ledger_invariant_preserved_clear_idempotent:
  "(ledger_inv L \<longrightarrow> (\<exists>L'. processSplitCommand parsed L = Inr L' \<and> ledger_inv L')) \<and>
   (\<exists>L1. processSplitCommand (Some [clear i]) L = Inr L1 \<and>
      processSplitCommand (Some [clear i]) L1 = Inr L1) \<and>
   (obj_get i L = None \<longrightarrow> processSplitCommand (Some [clear i]) L = Inr L)"
proof (intro conjI impI)
  assume "ledger_inv L"
  with processSplitCommand_total [of parsed L] ledger_inv_processSplitCommand
  show "\<exists>L'. processSplitCommand parsed L = Inr L' \<and> ledger_inv L'" by blast
next
  have "obj_delete i (obj_delete i L) = obj_delete i L"
    by (simp add: obj_delete_absent obj_get_delete_same)
  then show "\<exists>L1. processSplitCommand (Some [clear i]) L = Inr L1 \<and>
      processSplitCommand (Some [clear i]) L1 = Inr L1"
    by (simp add: processSplitCommand_def applyOp_clear)
next
  assume "obj_get i L = None"
  then show "processSplitCommand (Some [clear i]) L = Inr L"
    by (simp add: processSplitCommand_def applyOp_clear obj_delete_absent)
qed


theorem ledger_invariant_preserved_clear_idempotent_witness:
  "ledger_inv [(''item-0'', [(''Tom'', 1 / 2), (''Sam'', 1 / 2)])] \<and>
   obj_get ''item-5'' ([(''item-0'', [(''Tom'', 1 / 2), (''Sam'', 1 / 2)])] :: Assignments) = None \<and>
   (\<exists>L'. processSplitCommand (Some [assign ''item-1'' [''Ann''], clear ''item-0''])
        [(''item-0'', [(''Tom'', 1 / 2), (''Sam'', 1 / 2)])] = Inr L' \<and> ledger_inv L') \<and>
   processSplitCommand (Some [clear ''item-5''])
     [(''item-0'', [(''Tom'', 1 / 2), (''Sam'', 1 / 2)])] =
     Inr [(''item-0'', [(''Tom'', 1 / 2), (''Sam'', 1 / 2)])]"
proof -
  have a: "ledger_inv [(''item-0'', [(''Tom'', 1 / 2), (''Sam'', 1 / 2)])]"
    by (simp add: ledger_inv_def shares_ok_def)
  have b: "obj_get ''item-5'' ([(''item-0'', [(''Tom'', 1 / 2), (''Sam'', 1 / 2)])] :: Assignments) = None"
    by (simp add: obj_get_def)
  show ?thesis
    using a b ledger_invariant_preserved_clear_idempotent
      [of "[(''item-0'', [(''Tom'', 1 / 2), (''Sam'', 1 / 2)])]"
        "Some [assign ''item-1'' [''Ann''], clear ''item-0'']" "''item-5''"]
    by blast
qed

section \<open>The summary as a fold, a map and a sort\<close>

lemma forEach_pure:
  "(\<And>s x. x \<in> set xs \<Longrightarrow> f s x = Inr (g s x)) \<Longrightarrow> forEach f s xs = Inr (foldl g s xs)"
  by (induction xs arbitrary: s) auto

lemma mapE_pure: "(\<And>x. x \<in> set xs \<Longrightarrow> f x = Inr (g x)) \<Longrightarrow> mapE f xs = Inr (map g xs)"
  by (induction xs) auto

lemma addShare_addCost:
  assumes "obj_get person itemAssigns = Some share"
  shows "addShare item itemAssigns peopleMap person =
     Inr (addCost person (price item * share) peopleMap)"
proof (cases "obj_get person peopleMap")
  case None
  show ?thesis
  proof (cases "inherited person")
    case True
    with None assms show ?thesis
      by (simp add: addShare_def addCost_def Let_def)
  next
    case False
    with None assms show ?thesis
      by (simp add: addShare_def addCost_def bump_def Let_def obj_get_set_same obj_set_set)
  qed
next
  case (Some e)
  then show ?thesis
    using assms by (simp add: addShare_def addCost_def bump_def Let_def)
qed

lemma obj_get_Some_of_key: "k \<in> set (obj_keys ob) \<Longrightarrow> \<exists>v. obj_get k ob = Some v"
  using obj_get_None_iff [of k ob] by (cases "obj_get k ob") auto

lemma addItem_pure: "addItem assignments peopleMap item = Inr (itemTotals assignments peopleMap item)"
proof -
  let ?ia = "itemAssignsOf assignments item"
  have "forEach (addShare item ?ia) peopleMap (obj_keys ?ia) =
      Inr (foldl (\<lambda>pm person. addCost person
           (price item * (case obj_get person ?ia of None \<Rightarrow> 0 | Some s \<Rightarrow> s)) pm)
         peopleMap (obj_keys ?ia))"
  proof (rule forEach_pure)
    fix s x assume "x \<in> set (obj_keys ?ia)"
    then obtain share where "obj_get x ?ia = Some share"
      using obj_get_Some_of_key by blast
    then show "addShare item ?ia s x =
       Inr (addCost x (price item * (case obj_get x ?ia of None \<Rightarrow> 0 | Some s \<Rightarrow> s)) s)"
      by (simp add: addShare_addCost)
  qed
  then show ?thesis
    by (simp add: addItem_def itemTotals_def itemAssignsOf_def Let_def)
qed

lemma safeSubtotalOf_nonzero: "safeSubtotalOf r \<noteq> 0"
  by (simp add: safeSubtotalOf_def)

lemma allocate_pure: "allocate r (safeSubtotalOf r) person = Inr (allocated r person)"
  by (simp add: allocate_def allocated_def num_div_def safeSubtotalOf_nonzero)

lemma summaryData_pure:
  "summaryData (Some r) L =
     Inr (array_sort (\<lambda>a b. total b - total a) (map (allocated r) (obj_values (peopleMapOf r L))))"
proof -
  have "forEach (addItem L) [] (items r) = Inr (peopleMapOf r L)"
    unfolding peopleMapOf_def by (rule forEach_pure) (rule addItem_pure)
  moreover have "mapE (allocate r (safeSubtotalOf r)) xs = Inr (map (allocated r) xs)" for xs
    by (rule mapE_pure) (rule allocate_pure)
  ultimately show ?thesis
    by (simp add: summaryData_def Let_def safeSubtotalOf_def [symmetric])
qed

lemma sort_insert_insort:
  "sort_insert (\<lambda>a b. f b - f a) x ys = insort_key (\<lambda>p. - f p) x ys"
  by (induction ys) auto

lemma array_sort_sort_key:
  "array_sort (\<lambda>a b. f b - f a) xs = sort_key (\<lambda>p. - f p) xs"
proof -
  have "sort_insert (\<lambda>a b. f b - f a) = insort_key (\<lambda>p. - f p)"
    by (intro ext) (rule sort_insert_insort)
  then show ?thesis by (simp add: array_sort_def sort_key_def)
qed

lemma set_array_sort: "set (array_sort (\<lambda>a b. f b - f a) xs) = set xs"
  by (simp add: array_sort_sort_key)















lemma firstSeen_set: "set (firstSeen xs) = set xs"
  by (induction xs) auto




















lemma name_allocated [simp]: "name (allocated r p) = name p"
  by (simp add: allocated_def)






section \<open>Claims about the summary\<close>



text \<open>
  At that ledger the burger is shared by Tom and somebody called \<^verbatim>\<open>constructor\<close>, and Sam
  has an item that is not on the receipt: the summary is the one row of Tom.
\<close>

lemma summary_inherited_name_example:
  "summaryData
     (Some \<lparr>items = [\<lparr>item_id = ''item-0'', item_name = ''Burger'', price = 10\<rparr>],
            subtotal = 10, tax = 1, tip = 2, receipt_total = 13\<rparr>)
     [(''item-0'', [(''constructor'', 1 / 2), (''Tom'', 1 / 2)]), (''item-7'', [(''Sam'', 1)])] =
   Inr [\<lparr>name = ''Tom'', itemsTotal = 5, taxShare = 1 / 2, tipShare = 1, total = 13 / 2\<rparr>]"
  by (simp add: summaryData_def addItem_def addShare_def obj_keys_def obj_values_def
      obj_set_def obj_get_def goes_before_def is_array_index_def is_digit_def newPerson_def
      allocate_def num_div_def array_sort_def inherited_def)


text \<open>
  Claim C7. With a subtotal of \<open>0\<close> the summary is computed without a failure and without
  a division by zero: the divisor is \<open>1\<close>, and every row has the tax share
  \<open>tax * itemsTotal\<close> and the tip share \<open>tip * itemsTotal\<close>.
\<close>

theorem zero_subtotal_guard:
  assumes "subtotal r = 0"
  shows "\<exists>rows. summaryData (Some r) L = Inr rows \<and>
     (\<forall>p \<in> set rows. taxShare p = tax r * itemsTotal p \<and> tipShare p = tip r * itemsTotal p)"
proof -
  have "taxShare (allocated r p) = tax r * itemsTotal (allocated r p) \<and>
        tipShare (allocated r p) = tip r * itemsTotal (allocated r p)" for p
    using assms by (simp add: allocated_def safeSubtotalOf_def)
  then show ?thesis
    by (auto simp: summaryData_pure set_array_sort)
qed

theorem zero_subtotal_guard_witness:
  "subtotal \<lparr>items = [\<lparr>item_id = ''item-0'', item_name = ''Burger'', price = 10\<rparr>],
             subtotal = 0, tax = 1, tip = 2, receipt_total = 13\<rparr> = 0 \<and>
   (\<exists>rows.
      summaryData
        (Some \<lparr>items = [\<lparr>item_id = ''item-0'', item_name = ''Burger'', price = 10\<rparr>],
               subtotal = 0, tax = 1, tip = 2, receipt_total = 13\<rparr>)
        [(''item-0'', [(''Tom'', 1 / 2), (''Sam'', 1 / 2)])] = Inr rows \<and>
      (\<forall>p \<in> set rows.
         taxShare p =
           tax \<lparr>items = [\<lparr>item_id = ''item-0'', item_name = ''Burger'', price = 10\<rparr>],
                 subtotal = 0, tax = 1, tip = 2, receipt_total = 13\<rparr> * itemsTotal p \<and>
         tipShare p =
           tip \<lparr>items = [\<lparr>item_id = ''item-0'', item_name = ''Burger'', price = 10\<rparr>],
                 subtotal = 0, tax = 1, tip = 2, receipt_total = 13\<rparr> * itemsTotal p))"
proof -
  have z: "subtotal \<lparr>items = [\<lparr>item_id = ''item-0'', item_name = ''Burger'', price = 10\<rparr>],
             subtotal = 0, tax = 1, tip = 2, receipt_total = 13\<rparr> = 0"
    by simp
  show ?thesis by (intro conjI z zero_subtotal_guard [OF z])
qed




text \<open>
  Claim C6. The scenario of the specification: the two assignments applied to the empty
  ledger, and the summary of the resulting ledger for the receipt with the burger at 10
  and the fries at 4, subtotal 14, tax 1.4 and tip 2. The total printed on the receipt
  plays no part.
\<close>

theorem scenario_tom_and_sam:
  "processSplitCommand
     (Some [assign ''item-0'' [''Tom''], assign ''item-1'' [''Tom'', ''Sam'']]) [] =
     Inr [(''item-0'', [(''Tom'', 1.0)]), (''item-1'', [(''Tom'', 0.5), (''Sam'', 0.5)])] \<and>
   summaryData
     (Some \<lparr>items = [\<lparr>item_id = ''item-0'', item_name = ''Burger'', price = 10\<rparr>,
                      \<lparr>item_id = ''item-1'', item_name = ''Fries'', price = 4\<rparr>],
            subtotal = 14, tax = 1.4, tip = 2, receipt_total = t\<rparr>)
     [(''item-0'', [(''Tom'', 1.0)]), (''item-1'', [(''Tom'', 0.5), (''Sam'', 0.5)])] =
     Inr [\<lparr>name = ''Tom'', itemsTotal = 12, taxShare = 1.2, tipShare = 2 * 12 / 14,
            total = 12 + 1.2 + 2 * 12 / 14\<rparr>,
          \<lparr>name = ''Sam'', itemsTotal = 2, taxShare = 1.4 * 2 / 14, tipShare = 2 * 2 / 14,
            total = 2 + 1.4 * 2 / 14 + 2 * 2 / 14\<rparr>] \<and>
   (1.2 :: real) = 1.4 * 12 / 14"
proof (intro conjI)
  show "processSplitCommand
     (Some [assign ''item-0'' [''Tom''], assign ''item-1'' [''Tom'', ''Sam'']]) [] =
     Inr [(''item-0'', [(''Tom'', 1.0)]), (''item-1'', [(''Tom'', 0.5), (''Sam'', 0.5)])]"
    by (simp add: obj_assign_def processSplitCommand_def applyOp_def assign_def num_div_def assignPerson_def
        obj_set_def obj_get_def goes_before_def is_array_index_def is_digit_def)
  show "summaryData
     (Some \<lparr>items = [\<lparr>item_id = ''item-0'', item_name = ''Burger'', price = 10\<rparr>,
                      \<lparr>item_id = ''item-1'', item_name = ''Fries'', price = 4\<rparr>],
            subtotal = 14, tax = 1.4, tip = 2, receipt_total = t\<rparr>)
     [(''item-0'', [(''Tom'', 1.0)]), (''item-1'', [(''Tom'', 0.5), (''Sam'', 0.5)])] =
     Inr [\<lparr>name = ''Tom'', itemsTotal = 12, taxShare = 1.2, tipShare = 2 * 12 / 14,
            total = 12 + 1.2 + 2 * 12 / 14\<rparr>,
          \<lparr>name = ''Sam'', itemsTotal = 2, taxShare = 1.4 * 2 / 14, tipShare = 2 * 2 / 14,
            total = 2 + 1.4 * 2 / 14 + 2 * 2 / 14\<rparr>]"
    by (simp add: inherited_def summaryData_def addItem_def addShare_def obj_keys_def obj_values_def
        obj_set_def obj_get_def goes_before_def is_array_index_def is_digit_def newPerson_def
        allocate_def num_div_def array_sort_def)
  show "(1.2 :: real) = 1.4 * 12 / 14" by simp
qed

theorem scenario_tom_and_sam_witness:
  "processSplitCommand
     (Some [assign ''item-0'' [''Tom''], assign ''item-1'' [''Tom'', ''Sam'']]) [] =
     Inr [(''item-0'', [(''Tom'', 1.0)]), (''item-1'', [(''Tom'', 0.5), (''Sam'', 0.5)])] \<and>
   summaryData
     (Some \<lparr>items = [\<lparr>item_id = ''item-0'', item_name = ''Burger'', price = 10\<rparr>,
                      \<lparr>item_id = ''item-1'', item_name = ''Fries'', price = 4\<rparr>],
            subtotal = 14, tax = 1.4, tip = 2, receipt_total = 17.4\<rparr>)
     [(''item-0'', [(''Tom'', 1.0)]), (''item-1'', [(''Tom'', 0.5), (''Sam'', 0.5)])] =
     Inr [\<lparr>name = ''Tom'', itemsTotal = 12, taxShare = 1.2, tipShare = 2 * 12 / 14,
            total = 12 + 1.2 + 2 * 12 / 14\<rparr>,
          \<lparr>name = ''Sam'', itemsTotal = 2, taxShare = 1.4 * 2 / 14, tipShare = 2 * 2 / 14,
            total = 2 + 1.4 * 2 / 14 + 2 * 2 / 14\<rparr>] \<and>
   (1.2 :: real) = 1.4 * 12 / 14"
  by (rule scenario_tom_and_sam)

section \<open>The heap model refines the model on values\<close>

lemma readShares_Inr: "readShares h a = Inr s \<longleftrightarrow> a < length h \<and> h ! a = SharesObj s"
  by (auto simp: readShares_def split: hobj.splits)

lemma readLedger_Inr: "readLedger h a = Inr m \<longleftrightarrow> a < length h \<and> h ! a = LedgerObj m"
  by (auto simp: readLedger_def split: hobj.splits)

lemma readShares_extend: "readShares h a = Inr s \<Longrightarrow> readShares (h @ ext) a = Inr s"
  by (simp add: readShares_Inr nth_append)

lemma resolve_cong:
  "(\<And>b. b \<in> snd ` set m \<Longrightarrow> readShares h' b = readShares h b) \<Longrightarrow> resolve h' m = resolve h m"
proof (induction m)
  case Nil
  show ?case by simp
next
  case (Cons e m)
  obtain k a where e: "e = (k, a)" by (cases e)
  have "readShares h' a = readShares h a" using Cons.prems by (simp add: e)
  moreover have "resolve h' m = resolve h m" using Cons.prems by (intro Cons.IH) simp
  ultimately show ?case by (simp add: e split: sum.splits)
qed

lemma resolve_entry:
  "resolve h m = Some L \<Longrightarrow> (k, b) \<in> set m \<Longrightarrow> \<exists>s. readShares h b = Inr s"
  by (induction m arbitrary: L) (auto split: sum.splits option.splits)

lemma resolve_values:
  "resolve h m = Some L \<Longrightarrow> b \<in> snd ` set m \<Longrightarrow> \<exists>s. readShares h b = Inr s"
  using resolve_entry by fastforce

lemma resolve_extend: "resolve h m = Some L \<Longrightarrow> resolve (h @ ext) m = Some L"
proof -
  assume r: "resolve h m = Some L"
  have "resolve (h @ ext) m = resolve h m"
  proof (rule resolve_cong)
    fix b assume "b \<in> snd ` set m"
    with r obtain s where "readShares h b = Inr s" using resolve_values by blast
    then show "readShares (h @ ext) b = readShares h b" by (simp add: readShares_extend)
  qed
  with r show ?thesis by simp
qed

lemma resolve_keys: "resolve h m = Some L \<Longrightarrow> obj_keys L = obj_keys m"
  unfolding obj_keys_def
  by (induction m arbitrary: L) (auto split: sum.splits option.splits)

lemma resolve_get_None: "resolve h m = Some L \<Longrightarrow> obj_get k L = None \<longleftrightarrow> obj_get k m = None"
  by (simp add: obj_get_None_iff resolve_keys)

lemma resolve_insert:
  "resolve h m = Some L \<Longrightarrow> readShares h a = Inr s \<Longrightarrow>
   resolve h (obj_insert k a m) = Some (obj_insert k s L)"
  by (induction m arbitrary: L) (auto split: sum.splits option.splits)

lemma resolve_replace:
  "resolve h m = Some L \<Longrightarrow> readShares h a = Inr s \<Longrightarrow>
   resolve h (obj_replace k a m) = Some (obj_replace k s L)"
  by (induction m arbitrary: L) (auto split: sum.splits option.splits)

lemma resolve_set:
  "resolve h m = Some L \<Longrightarrow> readShares h a = Inr s \<Longrightarrow>
   resolve h (obj_set k a m) = Some (obj_set k s L)"
  using resolve_get_None [of h m L k]
  by (simp add: obj_set_def resolve_insert resolve_replace)

lemma resolve_delete:
  "resolve h m = Some L \<Longrightarrow> resolve h (obj_delete k m) = Some (obj_delete k L)"
  unfolding obj_delete_def
  by (induction m arbitrary: L) (auto split: sum.splits option.splits)

lemma ledgerAt_Some:
  "ledgerAt h a = Some L \<longleftrightarrow> (\<exists>m. readLedger h a = Inr m \<and> resolve h m = Some L)"
  by (auto simp: ledgerAt_def split: sum.splits)

lemma ledger_not_shares: "readLedger h na = Inr m \<Longrightarrow> readShares h na = Inl TypeError"
  by (auto simp: readLedger_Inr readShares_def)

lemma resolve_not_ledger:
  assumes "readLedger h na = Inr m'" and "resolve h m = Some L"
  shows "na \<notin> snd ` set m"
proof
  assume "na \<in> snd ` set m"
  with assms(2) obtain s where "readShares h na = Inr s" using resolve_values by blast
  with ledger_not_shares [OF assms(1)] show False by simp
qed

lemma copyEntries_copies:
  "resolve h es = Some L \<Longrightarrow>
   \<exists>es' ext. copyEntries es h = Inr (es', h @ ext) \<and> resolve (h @ ext) es' = Some L"
proof (induction es arbitrary: h L)
  case Nil
  then have "copyEntries [] h = Inr ([], h @ []) \<and> resolve (h @ []) [] = Some L" by simp
  then show ?case by blast
next
  case (Cons e es)
  obtain k a where e: "e = (k, a)" by (cases e)
  from Cons.prems obtain s L0 where s: "readShares h a = Inr s"
    and L0: "resolve h es = Some L0" and L: "L = (k, s) # L0"
    by (auto simp: e split: sum.splits option.splits)
  let ?h1 = "h @ [SharesObj s]"
  have "resolve ?h1 es = Some L0" using L0 by (rule resolve_extend)
  then obtain es' ext where c: "copyEntries es ?h1 = Inr (es', ?h1 @ ext)"
    and r: "resolve (?h1 @ ext) es' = Some L0"
    using Cons.IH by blast
  have new: "readShares (?h1 @ ext) (length h) = Inr s"
    by (simp add: readShares_Inr nth_append)
  have "copyEntries (e # es) h = Inr ((k, length h) # es', h @ ([SharesObj s] @ ext))"
    using s c by (simp add: e alloc_def)
  moreover have "resolve (h @ ([SharesObj s] @ ext)) ((k, length h) # es') = Some L"
    using new r by (simp add: L)
  ultimately show ?case by blast
qed

lemma jsonCopy_copies:
  assumes "ledgerAt h a = Some L"
  shows "\<exists>na ext. jsonCopy h a = Inr (na, h @ ext) \<and> length h \<le> na \<and>
           ledgerAt (h @ ext) na = Some L"
proof -
  from assms obtain m where m: "readLedger h a = Inr m" and r: "resolve h m = Some L"
    by (auto simp: ledgerAt_Some)
  from copyEntries_copies [OF r] obtain m' ext where
    c: "copyEntries m h = Inr (m', h @ ext)" and r': "resolve (h @ ext) m' = Some L"
    by blast
  let ?na = "length (h @ ext)"
  let ?h2 = "h @ (ext @ [LedgerObj m'])"
  have "jsonCopy h a = Inr (?na, ?h2)"
    using m c by (simp add: jsonCopy_def alloc_def)
  moreover have "readLedger ?h2 ?na = Inr m'"
    by (simp add: readLedger_Inr nth_append)
  moreover have "resolve ?h2 m' = Some L"
    using resolve_extend [OF r', of "[LedgerObj m']"] by simp
  ultimately have "jsonCopy h a = Inr (?na, ?h2) \<and> length h \<le> ?na \<and> ledgerAt ?h2 ?na = Some L"
    by (simp add: ledgerAt_Some)
  then show ?thesis by blast
qed

lemma readShares_update: "b \<noteq> c \<Longrightarrow> readShares (h[c := x]) b = readShares h b"
  by (simp add: readShares_def)

lemma forEach_heapAssignPerson:
  "readLedger h na = Inr m \<Longrightarrow> obj_get k m = Some a \<Longrightarrow> readShares h a = Inr s \<Longrightarrow>
   forEach (heapAssignPerson na k share) h ps = Inr (h[a := SharesObj (equalShares share ps s)])"
proof (induction ps arbitrary: h s)
  case Nil
  then have "h ! a = SharesObj s" by (simp add: readShares_Inr)
  then have "h[a := SharesObj s] = h" by (metis list_update_id)
  then show ?case by (simp add: equalShares_def)
next
  case (Cons p ps)
  let ?h1 = "h[a := SharesObj (obj_assign p share s)]"
  have ne: "a \<noteq> na" using Cons.prems by (auto simp: readLedger_Inr readShares_Inr)
  have step: "heapAssignPerson na k share h p = Inr ?h1"
    using Cons.prems by (simp add: heapAssignPerson_def)
  have "readLedger ?h1 na = Inr m"
    using Cons.prems(1) ne by (simp add: readLedger_Inr)
  moreover have "readShares ?h1 a = Inr (obj_assign p share s)"
    using Cons.prems(3) by (simp add: readShares_Inr)
  ultimately have "forEach (heapAssignPerson na k share) ?h1 ps =
      Inr (?h1[a := SharesObj (equalShares share ps (obj_assign p share s))])"
    using Cons.prems(2) by (intro Cons.IH)
  then show ?case using step by (simp add: equalShares_def)
qed

lemma forEach_heapAssignProto:
  "readShares h a = Inr s \<Longrightarrow>
   forEach (heapAssignProto a share) h ps = Inr (h[a := SharesObj (equalShares share ps s)])"
proof (induction ps arbitrary: h s)
  case Nil
  then have "h ! a = SharesObj s" by (simp add: readShares_Inr)
  then have "h[a := SharesObj s] = h" by (metis list_update_id)
  then show ?case by (simp add: equalShares_def)
next
  case (Cons p ps)
  let ?h1 = "h[a := SharesObj (obj_assign p share s)]"
  have step: "heapAssignProto a share h p = Inr ?h1"
    using Cons.prems by (simp add: heapAssignProto_def)
  have "readShares ?h1 a = Inr (obj_assign p share s)"
    using Cons.prems by (simp add: readShares_Inr)
  then have "forEach (heapAssignProto a share) ?h1 ps =
      Inr (?h1[a := SharesObj (equalShares share ps (obj_assign p share s))])"
    by (rule Cons.IH)
  then show ?case using step by (simp add: equalShares_def)
qed

lemma grows_refl: "grows na h h"
  by (simp add: grows_def)

lemma grows_trans: "grows na h h1 \<Longrightarrow> grows na h1 h2 \<Longrightarrow> grows na h h2"
  by (auto simp: grows_def)

lemma grows_take: "grows na h h' \<Longrightarrow> n \<le> na \<Longrightarrow> n \<le> length h \<Longrightarrow> take n h' = take n h"
  by (auto simp: grows_def intro!: nth_take_lemma)

lemma heapApplyOp_clear:
  assumes "ledgerAt h na = Some L" and "action op = Some ''clear''"
  shows "\<exists>h'. heapApplyOp na h op = Inr h' \<and>
     ledgerAt h' na = Some (obj_delete (prop_key (itemId op)) L) \<and> grows na h h'"
proof -
  let ?k = "prop_key (itemId op)"
  from assms(1) obtain m where m: "readLedger h na = Inr m" and r: "resolve h m = Some L"
    by (auto simp: ledgerAt_Some)
  let ?h' = "h[na := LedgerObj (obj_delete ?k m)]"
  have run: "heapApplyOp na h op = Inr ?h'"
    using assms(2) m by (simp add: heapApplyOp_def)
  have rl: "readLedger ?h' na = Inr (obj_delete ?k m)"
    using m by (simp add: readLedger_Inr)
  have "na \<notin> snd ` set m" using m r by (rule resolve_not_ledger)
  then have "resolve ?h' m = resolve h m"
    by (intro resolve_cong readShares_update) auto
  with r have "resolve ?h' (obj_delete ?k m) = Some (obj_delete ?k L)"
    by (simp add: resolve_delete)
  with rl have "ledgerAt ?h' na = Some (obj_delete ?k L)" by (simp add: ledgerAt_Some)
  moreover have "grows na h ?h'" by (simp add: grows_def)
  ultimately show ?thesis using run by blast
qed

lemma heapApplyOp_assign_entry:
  assumes "ledgerAt h na = Some L" and "action op = Some ''assign''"
    and "people op = Some ps" and "ps \<noteq> []"
    and "\<not> (prop_key (itemId op) = ''__proto__'' \<and> obj_get (prop_key (itemId op)) L = None)"
  shows "\<exists>h'. heapApplyOp na h op = Inr h' \<and>
     ledgerAt h' na =
       Some (obj_set (prop_key (itemId op)) (equalShares (1 / real (length ps)) ps []) L) \<and>
     grows na h h'"
proof -
  let ?k = "prop_key (itemId op)"
  let ?share = "1 / real (length ps)"
  let ?S = "equalShares ?share ps []"
  from assms(1) obtain m where m: "readLedger h na = Inr m" and r: "resolve h m = Some L"
    by (auto simp: ledgerAt_Some)
  have entry: "\<not> (?k = ''__proto__'' \<and> obj_get ?k m = None)"
    using assms(5) resolve_get_None [OF r, of ?k] by simp
  let ?a = "length h"
  let ?m2 = "obj_set ?k ?a m"
  let ?h1 = "h @ [SharesObj []]"
  let ?h2 = "?h1[na := LedgerObj ?m2]"
  let ?h3 = "?h2[?a := SharesObj ?S]"
  have na: "na < length h" using m by (simp add: readLedger_Inr)
  have rl2: "readLedger ?h2 na = Inr ?m2" using na by (simp add: readLedger_Inr)
  have rs2: "readShares ?h2 ?a = Inr []" using na by (simp add: readShares_Inr)
  have loop: "forEach (heapAssignPerson na ?k ?share) ?h2 ps = Inr ?h3"
    using rl2 obj_get_set_same rs2 by (rule forEach_heapAssignPerson)
  have run: "heapApplyOp na h op = Inr ?h3"
    using assms(2-4) m loop entry by (auto simp: heapApplyOp_def num_div_def alloc_def)
  have rl3: "readLedger ?h3 na = Inr ?m2" using na by (simp add: readLedger_Inr)
  have rs3: "readShares ?h3 ?a = Inr ?S" by (simp add: readShares_Inr)
  have "resolve ?h3 m = resolve h m"
  proof (rule resolve_cong)
    fix b assume b: "b \<in> snd ` set m"
    with r obtain s where s: "readShares h b = Inr s" using resolve_values by blast
    have "b \<noteq> na" using b resolve_not_ledger [OF m r] by auto
    moreover have "b \<noteq> length h" using s by (simp add: readShares_Inr)
    ultimately have "readShares ?h3 b = readShares ?h1 b"
      by (simp add: readShares_update)
    also have "\<dots> = readShares h b" using s by (simp add: readShares_extend)
    finally show "readShares ?h3 b = readShares h b" .
  qed
  with r have "resolve ?h3 m = Some L" by simp
  then have "resolve ?h3 ?m2 = Some (obj_set ?k ?S L)"
    using rs3 by (rule resolve_set)
  with rl3 have "ledgerAt ?h3 na = Some (obj_set ?k ?S L)" by (simp add: ledgerAt_Some)
  moreover have "grows na h ?h3" by (simp add: grows_def nth_append)
  ultimately show ?thesis using run by blast
qed

lemma heapApplyOp_assign_proto:
  assumes "ledgerAt h na = Some L" and "action op = Some ''assign''"
    and "people op = Some ps" and "ps \<noteq> []"
    and "prop_key (itemId op) = ''__proto__''" and "obj_get ''__proto__'' L = None"
  shows "\<exists>h'. heapApplyOp na h op = Inr h' \<and> ledgerAt h' na = Some L \<and> grows na h h'"
proof -
  let ?share = "1 / real (length ps)"
  let ?S = "equalShares ?share ps []"
  from assms(1) obtain m where m: "readLedger h na = Inr m" and r: "resolve h m = Some L"
    by (auto simp: ledgerAt_Some)
  have absent: "obj_get ''__proto__'' m = None"
    using assms(6) resolve_get_None [OF r, of "''__proto__''"] by simp
  let ?a = "length h"
  let ?h1 = "h @ [SharesObj []]"
  let ?h3 = "?h1[?a := SharesObj ?S]"
  have na: "na < length h" using m by (simp add: readLedger_Inr)
  have "readShares ?h1 ?a = Inr []" by (simp add: readShares_Inr)
  then have loop: "forEach (heapAssignProto ?a ?share) ?h1 ps = Inr ?h3"
    by (rule forEach_heapAssignProto)
  have run: "heapApplyOp na h op = Inr ?h3"
    using assms(2-5) m loop absent by (simp add: heapApplyOp_def num_div_def alloc_def)
  have ext: "?h3 = h @ [SharesObj ?S]" by simp
  have "readLedger ?h3 na = Inr m"
    using m na by (simp add: readLedger_Inr nth_append)
  moreover have "resolve ?h3 m = Some L"
    unfolding ext using r by (rule resolve_extend)
  ultimately have "ledgerAt ?h3 na = Some L" by (simp add: ledgerAt_Some)
  moreover have "grows na h ?h3" by (simp add: grows_def nth_append)
  ultimately show ?thesis using run by blast
qed

lemma heapApplyOp_assign:
  assumes "ledgerAt h na = Some L" and "action op = Some ''assign''"
    and "people op = Some ps" and "ps \<noteq> []"
  shows "\<exists>h'. heapApplyOp na h op = Inr h' \<and>
     ledgerAt h' na =
       Some (obj_assign (prop_key (itemId op)) (equalShares (1 / real (length ps)) ps []) L) \<and>
     grows na h h'"
proof (cases "prop_key (itemId op) = ''__proto__'' \<and> obj_get (prop_key (itemId op)) L = None")
  case True
  then have k: "prop_key (itemId op) = ''__proto__''" by blast
  with True have n: "obj_get ''__proto__'' L = None" by metis
  have "obj_assign (prop_key (itemId op)) (equalShares (1 / real (length ps)) ps []) L = L"
    using k n by (simp add: obj_assign_proto)
  with heapApplyOp_assign_proto [OF assms k n] show ?thesis by simp
next
  case False
  then have "obj_assign (prop_key (itemId op)) (equalShares (1 / real (length ps)) ps []) L =
      obj_set (prop_key (itemId op)) (equalShares (1 / real (length ps)) ps []) L"
    by (auto simp: obj_assign_def)
  with heapApplyOp_assign_entry [OF assms False] show ?thesis by simp
qed

lemma heapApplyOp_refines:
  assumes "ledgerAt h na = Some L"
  shows "\<exists>h' L'. heapApplyOp na h op = Inr h' \<and> applyOp L op = Inr L' \<and>
     ledgerAt h' na = Some L' \<and> grows na h h'"
proof (cases "action op = Some ''clear''")
  case True
  with heapApplyOp_clear [OF assms True] show ?thesis by (auto simp: applyOp_clear)
next
  case notclear: False
  show ?thesis
  proof (cases "action op = Some ''assign'' \<and> (\<exists>ps. people op = Some ps \<and> ps \<noteq> [])")
    case True
    then obtain ps where ps: "action op = Some ''assign''" "people op = Some ps" "ps \<noteq> []"
      by blast
    with heapApplyOp_assign [OF assms ps] show ?thesis by (auto simp: applyOp_assign)
  next
    case False
    with notclear have "applyOp L op = Inr L" "heapApplyOp na h op = Inr h"
      by (cases "people op"; auto simp: applyOp_def heapApplyOp_def)+
    with assms show ?thesis by (simp add: grows_refl)
  qed
qed

lemma forEach_heapApplyOp_refines:
  "ledgerAt h na = Some L \<Longrightarrow>
   \<exists>h' L'. forEach (heapApplyOp na) h ops = Inr h' \<and> forEach applyOp L ops = Inr L' \<and>
     ledgerAt h' na = Some L' \<and> grows na h h'"
proof (induction ops arbitrary: h L)
  case Nil
  then show ?case by (simp add: grows_refl)
next
  case (Cons op ops)
  from heapApplyOp_refines [OF Cons.prems, of op] obtain h1 L1 where
    1: "heapApplyOp na h op = Inr h1" "applyOp L op = Inr L1" "ledgerAt h1 na = Some L1"
       "grows na h h1"
    by blast
  from Cons.IH [OF 1(3)] obtain h2 L2 where
    2: "forEach (heapApplyOp na) h1 ops = Inr h2" "forEach applyOp L1 ops = Inr L2"
       "ledgerAt h2 na = Some L2" "grows na h1 h2"
    by blast
  from 1 2 grows_trans [OF 1(4) 2(4)] show ?case by auto
qed

lemma heapProcessSplitCommand_refines:
  assumes "ledgerAt h currentAssignments = Some L"
  shows "\<exists>newAssignments h' L'.
     heapProcessSplitCommand parsed currentAssignments h = Inr (newAssignments, h') \<and>
     processSplitCommand parsed L = Inr L' \<and>
     ledgerAt h' newAssignments = Some L' \<and>
     length h \<le> newAssignments \<and> take (length h) h' = h"
proof -
  from jsonCopy_copies [OF assms] obtain na ext where
    c: "jsonCopy h currentAssignments = Inr (na, h @ ext)" "length h \<le> na"
       "ledgerAt (h @ ext) na = Some L"
    by blast
  show ?thesis
  proof (cases parsed)
    case None
    with c show ?thesis
      by (simp add: heapProcessSplitCommand_def processSplitCommand_def)
  next
    case (Some ops)
    from forEach_heapApplyOp_refines [OF c(3), of ops] obtain h' L' where
      f: "forEach (heapApplyOp na) (h @ ext) ops = Inr h'" "forEach applyOp L ops = Inr L'"
         "ledgerAt h' na = Some L'" "grows na (h @ ext) h'"
      by blast
    have "take (length h) h' = take (length h) (h @ ext)"
      using f(4) c(2) by (rule grows_take) simp
    then have "take (length h) h' = h" by simp
    with Some c f show ?thesis
      by (simp add: heapProcessSplitCommand_def processSplitCommand_def)
  qed
qed

lemma applyOp_frame:
  assumes "prop_key (itemId op) \<noteq> j" and "applyOp A op = Inr A'"
  shows "obj_get j A' = obj_get j A"
proof (cases "action op = Some ''clear''")
  case True
  with assms show ?thesis by (auto simp: applyOp_clear obj_get_delete_other)
next
  case notclear: False
  show ?thesis
  proof (cases "action op = Some ''assign'' \<and> (\<exists>ps. people op = Some ps \<and> ps \<noteq> [])")
    case True
    then obtain ps where ps: "action op = Some ''assign''" "people op = Some ps" "ps \<noteq> []"
      by blast
    with assms show ?thesis by (auto simp: applyOp_assign obj_get_assign_other)
  next
    case False
    with notclear have "applyOp A op = Inr A"
      by (cases "people op") (auto simp: applyOp_def)
    with assms show ?thesis by simp
  qed
qed

lemma forEach_applyOp_frame:
  "\<forall>op \<in> set ops. prop_key (itemId op) \<noteq> j \<Longrightarrow> forEach applyOp A ops = Inr A' \<Longrightarrow>
   obj_get j A' = obj_get j A"
proof (induction ops arbitrary: A)
  case Nil
  then show ?case by simp
next
  case (Cons op ops)
  from applyOp_total [of A op] obtain A1 where A1: "applyOp A op = Inr A1" by blast
  with Cons.prems have "obj_get j A1 = obj_get j A" by (intro applyOp_frame) auto
  moreover from Cons.prems A1 have "obj_get j A' = obj_get j A1" by (intro Cons.IH) auto
  ultimately show ?case by simp
qed

section \<open>The frame of the operations\<close>

text \<open>
  Claim C10. Let the reference \<open>currentAssignments\<close> denote the ledger \<open>L\<close>, and let \<open>j\<close> be an
  item id that no operation of the batch has as its \<^verbatim>\<open>itemId\<close> (an operation without
  \<^verbatim>\<open>itemId\<close> writes the key \<^verbatim>\<open>"undefined"\<close>, which counts as its item id). Then the call
  returns a reference to a new object; the ledger it denotes is the one the model on
  values computes from \<open>L\<close>, and it gives \<open>j\<close> the same share map as \<open>L\<close> does, or none if
  \<open>L\<close> has none. Every object that existed before the call is unchanged, so
  \<open>currentAssignments\<close> still denotes \<open>L\<close>.
\<close>

theorem apply_frame:
  assumes "ledgerAt h currentAssignments = Some L"
    and "\<forall>op \<in> set ops. prop_key (itemId op) \<noteq> j"
  shows "\<exists>newAssignments h' L'.
     heapProcessSplitCommand (Some ops) currentAssignments h = Inr (newAssignments, h') \<and>
     processSplitCommand (Some ops) L = Inr L' \<and>
     ledgerAt h' newAssignments = Some L' \<and>
     obj_get j L' = obj_get j L \<and>
     length h \<le> newAssignments \<and> take (length h) h' = h \<and>
     ledgerAt h' currentAssignments = Some L"
proof -
  from heapProcessSplitCommand_refines [OF assms(1), of "Some ops"] obtain na h' L' where
    r: "heapProcessSplitCommand (Some ops) currentAssignments h = Inr (na, h')"
       "processSplitCommand (Some ops) L = Inr L'" "ledgerAt h' na = Some L'"
       "length h \<le> na" "take (length h) h' = h"
    by blast
  from r(2) assms(2) have frame: "obj_get j L' = obj_get j L"
    by (simp add: processSplitCommand_def forEach_applyOp_frame)
  from r(5) obtain ext where "h' = h @ ext"
    by (metis append_take_drop_id)
  with assms(1) have "ledgerAt h' currentAssignments = Some L"
    by (auto simp: ledgerAt_Some readLedger_Inr nth_append resolve_extend)
  with r frame show ?thesis by blast
qed

theorem apply_frame_witness:
  "ledgerAt [SharesObj [(''Tom'', 1)], LedgerObj [(''item-0'', 0)]] 1 =
     Some [(''item-0'', [(''Tom'', 1)])] \<and>
   list_all (\<lambda>op. prop_key (itemId op) \<noteq> ''item-0'')
     [assign ''item-1'' [''Sam''], clear ''item-2''] \<and>
   (\<exists>newAssignments h' L'.
     heapProcessSplitCommand (Some [assign ''item-1'' [''Sam''], clear ''item-2'']) 1
       [SharesObj [(''Tom'', 1)], LedgerObj [(''item-0'', 0)]] = Inr (newAssignments, h') \<and>
     processSplitCommand (Some [assign ''item-1'' [''Sam''], clear ''item-2''])
       [(''item-0'', [(''Tom'', 1)])] = Inr L' \<and>
     ledgerAt h' newAssignments = Some L' \<and>
     obj_get ''item-0'' L' = obj_get ''item-0'' [(''item-0'', [(''Tom'', 1)])] \<and>
     length [SharesObj [(''Tom'', 1)], LedgerObj [(''item-0'', 0)]] \<le> newAssignments \<and>
     take (length [SharesObj [(''Tom'', 1)], LedgerObj [(''item-0'', 0)]]) h' =
       [SharesObj [(''Tom'', 1)], LedgerObj [(''item-0'', 0)]] \<and>
     ledgerAt h' 1 = Some [(''item-0'', [(''Tom'', 1)])])"
proof -
  have a: "ledgerAt [SharesObj [(''Tom'', 1)], LedgerObj [(''item-0'', 0)]] 1 =
     Some [(''item-0'', [(''Tom'', 1)])]"
    by (simp add: ledgerAt_def readLedger_def readShares_def)
  have b: "\<forall>op \<in> set [assign ''item-1'' [''Sam''], clear ''item-2'']. prop_key (itemId op) \<noteq> ''item-0''"
    by simp
  have c: "list_all (\<lambda>op. prop_key (itemId op) \<noteq> ''item-0'')
     [assign ''item-1'' [''Sam''], clear ''item-2'']"
    by simp
  show ?thesis by (intro conjI a c apply_frame [OF a b])
qed

end
